theory Spec2Isabelle
  imports Main
begin

section \<open>Python values used by imapbackup38.py\<close>

text \<open>
  Both \<open>str\<close> and \<open>bytes\<close> values are character lists. A \<open>bytes\<close> value is a list of
  octets; a \<open>str\<close> value is a list of code points, of which the model covers the range
  0..255. The two types have different notions of white space, so every function that
  strips or matches white space exists in two versions.
\<close>

datatype error =
    SkipFolderException
  | AssertionError
  | IndexError
  | KeyError
  | TypeError
  | ValueError
  | ServerError
  | SystemExit

text \<open>\<open>str.isspace\<close> on code points below 256; also the class \<open>\s\<close> of a \<open>str\<close> pattern.\<close>

definition str_isspace :: "char \<Rightarrow> bool" where
  "str_isspace c =
     (c \<in> set [CHR 0x09, CHR 0x0A, CHR 0x0B, CHR 0x0C, CHR 0x0D,
               CHR 0x1C, CHR 0x1D, CHR 0x1E, CHR 0x1F, CHR 0x20, CHR 0x85, CHR 0xA0])"

text \<open>White space of \<open>bytes.strip\<close>; also the class \<open>\s\<close> of a \<open>bytes\<close> pattern.\<close>

definition bytes_isspace :: "char \<Rightarrow> bool" where
  "bytes_isspace c = (c \<in> set [CHR 0x09, CHR 0x0A, CHR 0x0B, CHR 0x0C, CHR 0x0D, CHR 0x20])"

definition strip_with :: "(char \<Rightarrow> bool) \<Rightarrow> string \<Rightarrow> string" where
  "strip_with p s = rev (dropWhile p (rev (dropWhile p s)))"

definition str_strip :: "string \<Rightarrow> string" where
  "str_strip = strip_with str_isspace"

definition bytes_strip :: "string \<Rightarrow> string" where
  "bytes_strip = strip_with bytes_isspace"

definition startswith :: "string \<Rightarrow> string \<Rightarrow> bool" where
  "startswith s p = (take (length p) s = p)"

text \<open>
  \<open>s.replace(old, new)\<close>: occurrences are found from the left and do not overlap. With an
  empty \<open>old\<close> Python puts \<open>new\<close> before every character and at the end.
\<close>

fun replace_ne :: "string \<Rightarrow> string \<Rightarrow> string \<Rightarrow> string" where
  "replace_ne old new [] = []"
| "replace_ne old new (c # cs) =
     (if old \<noteq> [] \<and> startswith (c # cs) old
      then new @ replace_ne old new (drop (length old) (c # cs))
      else c # replace_ne old new cs)"

definition py_replace :: "string \<Rightarrow> string \<Rightarrow> string \<Rightarrow> string" where
  "py_replace s old new =
     (if old = [] then new @ concat (map (\<lambda>c. c # new) s) else replace_ne old new s)"

text \<open>\<open>s.replace(old, new, 1)\<close>: only the first occurrence.\<close>

fun replace_first :: "string \<Rightarrow> string \<Rightarrow> string \<Rightarrow> string" where
  "replace_first old new [] = (if old = [] then new else [])"
| "replace_first old new (c # cs) =
     (if startswith (c # cs) old then new @ drop (length old) (c # cs)
      else c # replace_first old new cs)"

text \<open>\<open>s.split(sep)\<close> raises ValueError on an empty separator.\<close>

fun split_ne :: "string \<Rightarrow> string \<Rightarrow> string \<Rightarrow> string list" where
  "split_ne sep cur [] = [cur]"
| "split_ne sep cur (c # cs) =
     (if sep \<noteq> [] \<and> startswith (c # cs) sep
      then cur # split_ne sep [] (drop (length sep) (c # cs))
      else split_ne sep (cur @ [c]) cs)"

definition py_split :: "string \<Rightarrow> string \<Rightarrow> error + string list" where
  "py_split s sep = (if sep = [] then Inl ValueError else Inr (split_ne sep [] s))"

fun py_join :: "string \<Rightarrow> string list \<Rightarrow> string" where
  "py_join sep [] = []"
| "py_join sep [x] = x"
| "py_join sep (x # y # ys) = x @ sep @ py_join sep (y # ys)"

subsection \<open>Dictionaries\<close>

text \<open>
  A Python dict keeps its keys in insertion order, and the reconciliation relies on that
  order, so a dict is an association list. \<open>d[k] = v\<close> overwrites the value of a key that
  is present, in place, and appends a key that is absent.
\<close>

type_synonym ('k, 'v) pydict = "('k \<times> 'v) list"

fun dict_set :: "('k, 'v) pydict \<Rightarrow> 'k \<Rightarrow> 'v \<Rightarrow> ('k, 'v) pydict" where
  "dict_set [] k v = [(k, v)]"
| "dict_set ((k', v') # d) k v =
     (if k' = k then (k', v) # d else (k', v') # dict_set d k v)"

definition dict_keys :: "('k, 'v) pydict \<Rightarrow> 'k list" where
  "dict_keys d = map fst d"

definition dict_has :: "('k, 'v) pydict \<Rightarrow> 'k \<Rightarrow> bool" where
  "dict_has d k = (k \<in> set (map fst d))"

definition dict_get :: "('k, 'v) pydict \<Rightarrow> 'k \<Rightarrow> error + 'v" where
  "dict_get d k = (case map_of d k of None \<Rightarrow> Inl KeyError | Some v \<Rightarrow> Inr v)"

section \<open>Reconciliation (main, lines 810-813)\<close>

text \<open>
  \<^verbatim>\<open>
  new_messages = {}
  for msg_id in fol_messages.keys():
      if msg_id not in fil_messages:
          new_messages[msg_id] = fol_messages[msg_id]
  \<close>
  \<open>fil_messages\<close> is the dict of \<open>scan_file\<close> (or its empty list, which has no member).
\<close>

fun reconcile_loop ::
  "string list \<Rightarrow> (string, nat) pydict \<Rightarrow> (string, string) pydict \<Rightarrow>
   (string, nat) pydict \<Rightarrow> error + (string, nat) pydict" where
  "reconcile_loop [] fol_messages fil_messages new_messages = Inr new_messages"
| "reconcile_loop (msg_id # ks) fol_messages fil_messages new_messages =
     (if \<not> dict_has fil_messages msg_id
      then (case dict_get fol_messages msg_id of
              Inl e \<Rightarrow> Inl e
            | Inr n \<Rightarrow> reconcile_loop ks fol_messages fil_messages
                         (dict_set new_messages msg_id n))
      else reconcile_loop ks fol_messages fil_messages new_messages)"

definition reconcile ::
  "(string, nat) pydict \<Rightarrow> (string, string) pydict \<Rightarrow> error + (string, nat) pydict" where
  "reconcile fol_messages fil_messages =
     reconcile_loop (dict_keys fol_messages) fol_messages fil_messages []"

section \<open>Library functions and the collaborators\<close>

text \<open>
  The script calls three functions of the Python library on bytes that the model does not
  compute: UTF-8 decoding (with replacement of invalid input, and the strict variant that
  raises), UTF-8 encoding and the SHA-1 digest in hexadecimal. They are parameters, so
  every theorem holds for whatever these functions are.
\<close>

record pylib =
  decode_replace :: "string \<Rightarrow> string"
  decode_strict :: "string \<Rightarrow> string option"
  encode_utf8 :: "string \<Rightarrow> string"
  sha1_hexdigest :: "string \<Rightarrow> string"

text \<open>
  A call to the IMAP connection either raises (\<open>socket.error\<close>, \<open>IMAP4.error\<close>) or
  returns the pair \<open>(typ, data)\<close>. The replies are given per selected mailbox:
  \<^item> \<open>list_folders\<close> is \<open>server.list()\<close>, its data the rows of the LIST response;
  \<^item> \<open>select\<close> is \<open>server.select(name, readonly=False)\<close>;
  \<^item> \<open>search\<close> is \<open>server.search(None, 'UNSEEN')\<close>; its data is the list of message
    sequence numbers that \<open>data[0].split()\<close> and \<open>int\<close> recover from the reply;
  \<^item> \<open>fetch\<close> is \<open>server.fetch(num, part)\<close>; its data is \<open>data[0][1]\<close>, the literal of
    the first response item, or \<open>None\<close> when the response has no such literal (then
    \<open>data[0][1]\<close> raises TypeError).
\<close>

datatype 'a reply = Raises | Reply string 'a

record server =
  list_folders :: "string list reply"
  select :: "string \<Rightarrow> unit reply"
  search :: "string \<Rightarrow> nat list reply"
  fetch :: "string \<Rightarrow> nat \<Rightarrow> string \<Rightarrow> string option reply"

text \<open>
  The outbound relay: \<open>relay i host sender recipient text\<close> tells whether the three calls
  \<open>smtplib.SMTP(host, 25)\<close>, \<open>ehlo()\<close> and \<open>sendmail(sender, recipient, text)\<close> for the
  message at position \<open>i\<close> of the batch all complete without raising.
\<close>

type_synonym smtp = "nat \<Rightarrow> string \<Rightarrow> string \<Rightarrow> string \<Rightarrow> string \<Rightarrow> bool"

text \<open>
  An archive file on disk, as \<open>mailbox.mbox\<close> reads it: absent, or the list of its
  messages, each given by the value of \<open>message.get('Message-Id')\<close>, which is \<open>None\<close>
  when the message has no such header.
\<close>

type_synonym disk = "string \<Rightarrow> string option list option"

section \<open>Regular expressions and constants (lines 112-117)\<close>

definition UUID :: string where
  "UUID = ''19AF1258-1AAF-44EF-9D9A-731079D6FAD7''"

abbreviation CR :: char where
  "CR \<equiv> CHR 0x0D"

abbreviation LF :: char where
  "LF \<equiv> CHR 0x0A"

abbreviation TAB :: char where
  "TAB \<equiv> CHR 0x09"

abbreviation DQUOTE :: char where
  "DQUOTE \<equiv> CHR 0x22"

abbreviation BACKSLASH :: char where
  "BACKSLASH \<equiv> CHR 0x5C"

text \<open>\<open>BLANKS_RE.sub(' ', s)\<close>: every maximal run of white space becomes one space.\<close>

function blanks_sub :: "string \<Rightarrow> string" where
  "blanks_sub [] = []"
| "blanks_sub (c # cs) =
     (if str_isspace c then CHR '' '' # blanks_sub (dropWhile str_isspace cs)
      else c # blanks_sub cs)"
  by pat_completeness auto
termination
  by (relation "measure length") (auto simp: le_imp_less_Suc length_dropWhile_le)

definition lower_ascii :: "char \<Rightarrow> char" where
  "lower_ascii c =
     (case map_of (zip ''ABCDEFGHIJKLMNOPQRSTUVWXYZ'' ''abcdefghijklmnopqrstuvwxyz'') c of
        None \<Rightarrow> c
      | Some l \<Rightarrow> l)"

text \<open>
  \<open>MSGID_RE.match(header).group(1)\<close> for the pattern \<open>^Message\-Id\: (.+)\<close>, compiled with
  IGNORECASE and MULTILINE: the header must begin with the twelve characters
  \<open>Message-Id: \<close> in any letter case, and the group is the longest run of characters other
  than line feed that follows, which must not be empty. \<open>None\<close> is the failed match, on
  which \<open>.group\<close> raises AttributeError.
\<close>

definition msgid_match :: "string \<Rightarrow> string option" where
  "msgid_match header =
     (let g = takeWhile (\<lambda>c. c \<noteq> LF) (drop 12 header)
      in if map lower_ascii (take 12 header) = ''message-id: '' \<and> g \<noteq> []
         then Some g else None)"

section \<open>download_messages (lines 140-214)\<close>

text \<open>
  \<open>from_re.sub(b"\n>\\1From ", text)\<close> for \<open>from_re = \n(>*)From \<close>: at a line feed that is
  followed by any number of \<open>>\<close> and then \<open>From \<close>, one more \<open>>\<close> is put after the line
  feed; the search goes on after the match.
\<close>

function from_re_sub :: "string \<Rightarrow> string" where
  "from_re_sub [] = []"
| "from_re_sub (c # cs) =
     (if c = LF \<and> startswith (dropWhile (\<lambda>x. x = CHR ''>'') cs) ''From ''
      then [LF, CHR ''>''] @ takeWhile (\<lambda>x. x = CHR ''>'') cs @ ''From ''
           @ from_re_sub (drop 5 (dropWhile (\<lambda>x. x = CHR ''>'') cs))
      else c # from_re_sub cs)"
  by pat_completeness auto
termination
  by (relation "measure length")
    (auto simp: less_Suc_eq_le intro: le_trans [OF diff_le_self length_dropWhile_le])

text \<open>\<open>data_bytes.strip().replace(b'\r', b'')\<close>, lines 190 and 250.\<close>

definition text_of_data :: "string \<Rightarrow> string" where
  "text_of_data data_bytes = py_replace (bytes_strip data_bytes) [CR] []"

text \<open>Lines 191-199: the two quoting modes.\<close>

definition quote_from :: "bool \<Rightarrow> string \<Rightarrow> string" where
  "quote_from thunderbird text_bytes =
     (if thunderbird
      then py_replace text_bytes (LF # ''From '') (LF # '' From '')
      else from_re_sub text_bytes)"

text \<open>\<open>sub in s\<close> for strings.\<close>

definition contains :: "string \<Rightarrow> string \<Rightarrow> bool" where
  "contains s sub = list_ex (\<lambda>i. startswith (drop i s) sub) [0..<Suc (length s)]"

text \<open>
  One turn of the loop of lines 166-209. The result is the bytes written to the archive
  and the outcome; the envelope line is written before the message is fetched, so it is
  in the file also when the fetch fails. \<open>ctime\<close> is the value of \<open>time.ctime()\<close>.
\<close>

definition download_message ::
  "server \<Rightarrow> string \<Rightarrow> string \<Rightarrow> bool \<Rightarrow> bool \<Rightarrow> string \<Rightarrow> nat \<Rightarrow> string \<times> (error + unit)" where
  "download_message srv folder ctime thunderbird icloud msg_id num =
     (let buf = ''From nobody '' @ ctime @ [LF];
          buf = (if contains msg_id UUID then buf @ ''Message-Id: '' @ msg_id @ [LF] else buf)
      in case fetch srv folder num (if icloud then ''(BODY.PEEK[])'' else ''(RFC822)'') of
           Raises \<Rightarrow> (buf, Inl ServerError)
         | Reply typ data \<Rightarrow>
             if typ \<noteq> ''OK'' then (buf, Inl AssertionError)
             else (case data of
                None \<Rightarrow> (buf, Inl TypeError)
              | Some data_bytes \<Rightarrow>
                  (buf @ quote_from thunderbird (text_of_data data_bytes) @ [LF, LF], Inr ())))"

fun download_loop ::
  "server \<Rightarrow> string \<Rightarrow> (nat \<Rightarrow> string) \<Rightarrow> bool \<Rightarrow> bool \<Rightarrow> (string, nat) pydict \<Rightarrow>
   string list \<Rightarrow> nat \<Rightarrow> string \<times> (error + unit)" where
  "download_loop srv folder clock thunderbird icloud messages [] i = ([], Inr ())"
| "download_loop srv folder clock thunderbird icloud messages (msg_id # ks) i =
     (case dict_get messages msg_id of
        Inl e \<Rightarrow> ([], Inl e)
      | Inr num \<Rightarrow>
         (case download_message srv folder (clock i) thunderbird icloud msg_id num of
            (written, Inl e) \<Rightarrow> (written, Inl e)
          | (written, Inr u) \<Rightarrow>
             (let (written', r) =
                    download_loop srv folder clock thunderbird icloud messages ks (i + 1)
              in (written @ written', r))))"

text \<open>The bytes that \<open>download_messages\<close> appends to the archive of the folder.\<close>

definition download_messages ::
  "server \<Rightarrow> string \<Rightarrow> (nat \<Rightarrow> string) \<Rightarrow> bool \<Rightarrow> bool \<Rightarrow> (string, nat) pydict \<Rightarrow>
   string \<times> (error + unit)" where
  "download_messages srv folder clock thunderbird icloud messages =
     (if length messages = 0 then ([], Inr ())
      else download_loop srv folder clock thunderbird icloud messages (dict_keys messages) 0)"

section \<open>resend_messages (lines 216-294)\<close>

text \<open>
  The effects of the relay stage that the specification speaks of: the delivery attempt,
  the flag command sent to the source, the end of the relay session and the pause.
  \<open>server.store\<close> is called inside its own \<open>try\<close>, whose handler only prints, so whether
  it raises changes nothing in what follows; the same holds for \<open>smtpcon.quit()\<close>.
\<close>

datatype event =
    Sendmail string string string string
  | Store nat string string
  | Quit
  | Sleep nat

definition bytes_rstrip :: "string \<Rightarrow> string" where
  "bytes_rstrip s = rev (dropWhile bytes_isspace (rev s))"

definition BODY_PART :: string where
  "BODY_PART = ''(BODY.PEEK[])''"

definition FROM_PART :: string where
  "FROM_PART = ''(BODY.PEEK[HEADER.FIELDS (FROM)])''"

text \<open>Lines 245-248.\<close>

definition sender_of :: "string \<Rightarrow> string" where
  "sender_of fromdata =
     (let fromemail = bytes_rstrip fromdata
      in if startswith fromemail ''From: '' then drop (length ''From: '') fromemail
         else fromemail)"

text \<open>One turn of the loop of lines 237-279, up to the closing of the relay session.\<close>

definition resend_message ::
  "server \<Rightarrow> smtp \<Rightarrow> string \<Rightarrow> string \<Rightarrow> string \<Rightarrow> nat \<Rightarrow> nat \<Rightarrow> event list \<times> (error + unit)" where
  "resend_message srv relay folder mailserver mailuser msgcounter num =
     (case fetch srv folder num BODY_PART of
        Raises \<Rightarrow> ([], Inl ServerError)
      | Reply typ data \<Rightarrow>
          if typ \<noteq> ''OK'' then ([], Inl AssertionError)
          else (case fetch srv folder num FROM_PART of
             Raises \<Rightarrow> ([], Inl ServerError)
           | Reply typ fromdata \<Rightarrow>
               if typ \<noteq> ''OK'' then ([], Inl AssertionError)
               else (case fromdata of
                  None \<Rightarrow> ([], Inl TypeError)
                | Some fd \<Rightarrow>
                   (case data of
                      None \<Rightarrow> ([], Inl TypeError)
                    | Some data_bytes \<Rightarrow>
                       (let fromemail = sender_of fd;
                            text_bytes = text_of_data data_bytes
                        in ([Sendmail mailserver fromemail mailuser text_bytes,
                             Store num
                               (if relay msgcounter mailserver fromemail mailuser text_bytes
                                then ''+FLAGS'' else ''-FLAGS'')
                               (BACKSLASH # ''Seen''),
                             Quit], Inr ()))))))"

fun resend_loop ::
  "server \<Rightarrow> smtp \<Rightarrow> string \<Rightarrow> string \<Rightarrow> string \<Rightarrow> (string, nat) pydict \<Rightarrow> string list \<Rightarrow>
   nat \<Rightarrow> event list \<times> (error + unit)" where
  "resend_loop srv relay folder mailserver mailuser messages [] msgcounter = ([], Inr ())"
| "resend_loop srv relay folder mailserver mailuser messages (msg_id # ks) msgcounter =
     (case dict_get messages msg_id of
        Inl e \<Rightarrow> ([], Inl e)
      | Inr num \<Rightarrow>
         (case resend_message srv relay folder mailserver mailuser msgcounter num of
            (evs, Inl e) \<Rightarrow> (evs, Inl e)
          | (evs, Inr u) \<Rightarrow>
             (let msgcounter = msgcounter + 1;
                  pause = (if msgcounter mod 30 = 0 then [Sleep 60] else []);
                  (evs', r) =
                    resend_loop srv relay folder mailserver mailuser messages ks msgcounter
              in (evs @ pause @ evs', r))))"

definition resend_messages ::
  "server \<Rightarrow> smtp \<Rightarrow> string \<Rightarrow> string \<Rightarrow> string \<Rightarrow> (string, nat) pydict \<Rightarrow>
   event list \<times> (error + unit)" where
  "resend_messages srv relay folder mailserver mailuser messages =
     (if length messages = 0 then ([], Inr ())
      else resend_loop srv relay folder mailserver mailuser messages (dict_keys messages) 0)"

section \<open>scan_file (lines 297-350)\<close>

text \<open>
  The warnings that \<open>scan_file\<close> prints. \<open>message.get\<close> returns \<open>None\<close> for a header that
  is absent and never raises KeyError, so the handler that prints the first warning is
  never entered: no equation below produces \<open>NoHeader\<close>.
\<close>

datatype warning = NoHeader nat string | Malformed nat string

fun scan_file_loop ::
  "string option list \<Rightarrow> string \<Rightarrow> nat \<Rightarrow> (string, string) pydict \<Rightarrow> warning list \<Rightarrow>
   (string, string) pydict \<times> warning list" where
  "scan_file_loop [] filename i messages log = (messages, log)"
| "scan_file_loop (message_id # mbox) filename i messages log =
     (let header = ''Message-Id: '' @ (case message_id of None \<Rightarrow> ''None'' | Some v \<Rightarrow> v);
          header = blanks_sub (str_strip header)
      in case msgid_match header of
           Some msg_id \<Rightarrow>
             scan_file_loop mbox filename (i + 1)
               (if \<not> dict_has messages msg_id then dict_set messages msg_id msg_id
                else messages)
               log
         | None \<Rightarrow>
             scan_file_loop mbox filename (i + 1) messages (log @ [Malformed i filename]))"

definition scan_file ::
  "disk \<Rightarrow> string \<Rightarrow> bool \<Rightarrow> (string, string) pydict \<times> warning list" where
  "scan_file dsk filename overwrite =
     (if overwrite then ([], [])
      else case dsk filename of
             None \<Rightarrow> ([], [])
           | Some mbox \<Rightarrow> scan_file_loop mbox filename 0 [] [])"

section \<open>scan_folder (lines 353-422)\<close>

definition MSGID_PART :: string where
  "MSGID_PART = ''(BODY.PEEK[HEADER.FIELDS (MESSAGE-ID)])''"

definition HEADERS_PART :: string where
  "HEADERS_PART = ''(BODY[HEADER.FIELDS (FROM TO CC DATE SUBJECT)])''"

text \<open>Lines 392-396.\<close>

definition header_of :: "pylib \<Rightarrow> string \<Rightarrow> string" where
  "header_of lib data = blanks_sub (str_strip (decode_replace lib data))"

text \<open>Lines 410-414.\<close>

definition synth_msgid :: "pylib \<Rightarrow> string \<Rightarrow> string" where
  "synth_msgid lib msg_data =
     (let header = str_strip (decode_replace lib msg_data);
          header = encode_utf8 lib (py_replace header [CR, LF] [TAB])
      in ''<'' @ UUID @ ''.'' @ sha1_hexdigest lib header @ ''>'')"

text \<open>One turn of the loop of lines 386-415.\<close>

definition scan_message ::
  "pylib \<Rightarrow> server \<Rightarrow> string \<Rightarrow> nat \<Rightarrow> (string, nat) pydict \<Rightarrow>
   error + (string, nat) pydict" where
  "scan_message lib srv folder messagenum messages =
     (case fetch srv folder messagenum MSGID_PART of
        Raises \<Rightarrow> Inl ServerError
      | Reply typ data \<Rightarrow>
          if typ \<noteq> ''OK'' then Inl SkipFolderException
          else (case data of
             None \<Rightarrow> Inl TypeError
           | Some b \<Rightarrow>
              (case msgid_match (header_of lib b) of
                 Some msg_id \<Rightarrow>
                   Inr (if \<not> dict_has messages msg_id
                        then dict_set messages msg_id messagenum else messages)
               | None \<Rightarrow>
                  (case fetch srv folder messagenum HEADERS_PART of
                     Raises \<Rightarrow> Inl ServerError
                   | Reply msg_typ msg_data \<Rightarrow>
                       if msg_typ \<noteq> ''OK'' then Inl SkipFolderException
                       else (case msg_data of
                          None \<Rightarrow> Inl TypeError
                        | Some hb \<Rightarrow>
                            Inr (dict_set messages (synth_msgid lib hb) messagenum))))))"

fun scan_loop ::
  "pylib \<Rightarrow> server \<Rightarrow> string \<Rightarrow> nat list \<Rightarrow> (string, nat) pydict \<Rightarrow>
   error + (string, nat) pydict" where
  "scan_loop lib srv folder [] messages = Inr messages"
| "scan_loop lib srv folder (n # ns) messages =
     (case scan_message lib srv folder n messages of
        Inl e \<Rightarrow> Inl e
      | Inr messages' \<Rightarrow> scan_loop lib srv folder ns messages')"

text \<open>Line 356: \<open>'"{}"'.format(foldername)\<close>.\<close>

definition quoted :: "string \<Rightarrow> string" where
  "quoted foldername = [DQUOTE] @ foldername @ [DQUOTE]"

definition scan_folder ::
  "pylib \<Rightarrow> server \<Rightarrow> string \<Rightarrow> error + (string, nat) pydict" where
  "scan_folder lib srv foldername =
     (let foldername = quoted foldername in
      case select srv foldername of
        Raises \<Rightarrow> Inl ServerError
      | Reply typ u \<Rightarrow>
          if typ \<noteq> ''OK'' then Inl SkipFolderException
          else (case search srv foldername of
             Raises \<Rightarrow> Inl ServerError
           | Reply typ msg_numbers \<Rightarrow>
               if typ \<noteq> ''OK'' then Inl SkipFolderException
               else scan_loop lib srv foldername msg_numbers []))"

section \<open>Parsing the LIST response (lines 425-472)\<close>

datatype attr = Atom string | Nested "attr list"

definition is_attr_char :: "char \<Rightarrow> bool" where
  "is_attr_char c =
     (c \<in> set ''abcdefghijklmnopqrstuvwxyzABCDEFGHIJKLMNOPQRSTUVWXYZ0123456789_'')"

text \<open>
  \<open>name_attrib_re.search(row)\<close> for the pattern \<open>^\s*(\\[a-zA-Z0-9_]+)\s*\<close>: the match
  starts at the beginning of the row; the result is the matched text stripped of white
  space and the row after the match.
\<close>

definition name_attrib_match :: "string \<Rightarrow> (string \<times> string) option" where
  "name_attrib_match row =
     (case dropWhile str_isspace row of
        [] \<Rightarrow> None
      | c # cs \<Rightarrow>
          if c = BACKSLASH \<and> takeWhile is_attr_char cs \<noteq> []
          then Some (c # takeWhile is_attr_char cs,
                     dropWhile str_isspace (dropWhile is_attr_char cs))
          else None)"

text \<open>
  The loop of \<open>parse_paren_list\<close>, entered after the opening parenthesis is eaten, with
  the list built so far. \<open>row[0]\<close> on the empty row raises IndexError; the recursive call
  parses a nested list and hands back the rest of the row.
\<close>

function parse_items :: "string \<Rightarrow> attr list \<Rightarrow> error + (attr list \<times> string)" where
  "parse_items [] result = Inl IndexError"
| "parse_items (c # row) result =
     (if c = CHR '')'' then Inr (result, row)
      else if c = CHR ''(''
        then (case parse_items row [] of
                Inl e \<Rightarrow> Inl e
              | Inr (paren_list, row') \<Rightarrow> parse_items row' (result @ [Nested paren_list]))
        else (case name_attrib_match (c # row) of
                None \<Rightarrow> Inl AssertionError
              | Some (name_attrib, row') \<Rightarrow> parse_items row' (result @ [Atom name_attrib])))"
  by pat_completeness auto
termination
proof -
  have attrib: "length row' < length row"
    if m: "name_attrib_match row = Some (a, row')" for row a row'
  proof -
    from m obtain c cs where r: "dropWhile str_isspace row = c # cs"
      and row': "row' = dropWhile str_isspace (dropWhile is_attr_char cs)"
      by (auto simp: name_attrib_match_def split: list.splits if_splits)
    have "length row' \<le> length (dropWhile is_attr_char cs)"
      unfolding row' by (rule length_dropWhile_le)
    also have "\<dots> \<le> length cs" by (rule length_dropWhile_le)
    also have "\<dots> < length (c # cs)" by simp
    also have "\<dots> \<le> length row" unfolding r [symmetric] by (rule length_dropWhile_le)
    finally show ?thesis .
  qed
  have shorter: "length row' < length row"
    if "parse_items_dom (row, result)" and "parse_items row result = Inr (r, row')"
    for row result r row'
    using that
  proof (induction row result arbitrary: r row' rule: parse_items.pinduct)
    case (1 result)
    then show ?case by (simp add: parse_items.psimps)
  next
    case (2 c row result)
    show ?case
    proof (cases "c = CHR '')''")
      case True
      with "2.hyps" "2.prems" show ?thesis by (auto simp: parse_items.psimps)
    next
      case nclose: False
      show ?thesis
      proof (cases "c = CHR ''(''")
        case True
        with "2.hyps" "2.prems" nclose obtain pl rw where
          inner: "parse_items row [] = Inr (pl, rw)"
          and outer: "parse_items rw (result @ [Nested pl]) = Inr (r, row')"
          by (auto simp: parse_items.psimps split: sum.splits)
        from "2.IH"(1) [OF nclose True inner] have "length rw < length row" .
        moreover from "2.IH"(2) [OF nclose True inner refl outer]
        have "length row' < length rw" .
        ultimately show ?thesis by simp
      next
        case False
        with "2.hyps" "2.prems" nclose obtain a rw where
          m: "name_attrib_match (c # row) = Some (a, rw)"
          and outer: "parse_items rw (result @ [Atom a]) = Inr (r, row')"
          by (auto simp: parse_items.psimps split: option.splits)
        from attrib [OF m] have "length rw < length (c # row)" .
        moreover from "2.IH"(3) [OF nclose False m refl outer]
        have "length row' < length rw" .
        ultimately show ?thesis by simp
      qed
    qed
  qed
  show ?thesis
  proof (relation "measure (\<lambda>(row, result). length row)", goal_cases)
    case 1
    show ?case by simp
  next
    case (2 c row result)
    then show ?case by simp
  next
    case (3 c row result x2 x y)
    then show ?case using shorter [of row "[]" x y] by simp
  next
    case (4 c row result x2 x y)
    then show ?case using attrib [of "c # row" x y] by simp
  qed
qed

definition parse_paren_list :: "string \<Rightarrow> error + (attr list \<times> string)" where
  "parse_paren_list row =
     (case row of
        [] \<Rightarrow> Inl IndexError
      | c # row' \<Rightarrow> if c \<noteq> CHR ''('' then Inl AssertionError else parse_items row' [])"

text \<open>
  The pattern of \<open>parse_string_list\<close> is \<open>\s*(?:"([^"]+)")\s*|\s*(\S+)\s*\<close>. After white
  space, the first alternative matches a double quote, one or more characters other than
  a double quote, and a double quote; otherwise the second alternative matches the run
  of characters that are not white space. A match begins where the last one ended, so
  \<open>split\<close> returns the groups, \<open>None\<close> for the group of the other alternative, and empty
  strings between the matches, which the comprehension drops. The groups, in order:
\<close>

function tokens :: "string \<Rightarrow> string list" where
  "tokens s =
     (case dropWhile str_isspace s of
        [] \<Rightarrow> []
      | c # cs \<Rightarrow>
          (let q = takeWhile (\<lambda>x. x \<noteq> DQUOTE) cs in
           if c = DQUOTE \<and> q \<noteq> [] \<and> drop (length q) cs \<noteq> []
           then q # tokens (drop (Suc (length q)) cs)
           else takeWhile (\<lambda>x. \<not> str_isspace x) (c # cs)
                # tokens (dropWhile (\<lambda>x. \<not> str_isspace x) (c # cs))))"
  by pat_completeness auto
termination
proof -
  have first: "length cs < length s \<and> \<not> p c" if a: "dropWhile p s = c # cs"
    for p :: "char \<Rightarrow> bool" and s c cs
  proof -
    have "length (dropWhile p s) \<le> length s" by (rule length_dropWhile_le)
    moreover have "\<not> p (hd (dropWhile p s))"
      using a hd_dropWhile [of p s] by simp
    ultimately show ?thesis using a by simp
  qed
  show ?thesis
  proof (relation "measure length", goal_cases)
    case 1
    show ?case by simp
  next
    case (2 s c cs q)
    from first [OF 2(1)] have "length cs < length s" by simp
    then show ?case by simp
  next
    case (3 s c cs q)
    from first [OF 3(1)] have l: "length cs < length s" and n: "\<not> str_isspace c"
      by simp_all
    have "length (dropWhile (\<lambda>x. \<not> str_isspace x) cs) \<le> length cs"
      by (rule length_dropWhile_le)
    with l n show ?case by simp
  qed
qed

declare tokens.simps [simp del]

text \<open>
  A row without a match is returned by \<open>split\<close> as it is, and kept when it is not empty.
\<close>

definition parse_string_list :: "string \<Rightarrow> string list" where
  "parse_string_list row =
     (if dropWhile str_isspace row = [] then (if row = [] then [] else [row])
      else tokens row)"

definition parse_list :: "string \<Rightarrow> error + (attr list \<times> string \<times> string)" where
  "parse_list row =
     (case parse_paren_list (str_strip row) of
        Inl e \<Rightarrow> Inl e
      | Inr (paren_list, row') \<Rightarrow>
          (case parse_string_list row' of
             [delim, foldername] \<Rightarrow> Inr (paren_list, delim, foldername)
           | _ \<Rightarrow> Inl AssertionError))"

section \<open>get_names (lines 475-505)\<close>

text \<open>Lines 490-497: the archive file name of a folder.\<close>

definition make_filename :: "bool \<Rightarrow> string \<Rightarrow> string \<Rightarrow> error + string" where
  "make_filename thunderbird delim foldername =
     (case py_split foldername delim of
        Inl e \<Rightarrow> Inl e
      | Inr parts \<Rightarrow>
          if thunderbird
          then (let filename = py_join ''.sbd/'' parts
                in Inr (if startswith filename ''INBOX''
                        then py_replace filename ''INBOX'' ''Inbox'' else filename))
          else Inr (py_join ''.'' parts @ ''.mbox''))"

fun get_names_loop ::
  "pylib \<Rightarrow> bool \<Rightarrow> string list \<Rightarrow> (string \<times> string) list \<Rightarrow>
   error + (string \<times> string) list" where
  "get_names_loop lib thunderbird [] names = Inr names"
| "get_names_loop lib thunderbird (row # data) names =
     (case decode_strict lib row of
        None \<Rightarrow> Inl ValueError
      | Some row_str \<Rightarrow>
          (case parse_list row_str of
             Inl e \<Rightarrow> Inl e
           | Inr (attribs, delim, foldername) \<Rightarrow>
               (case make_filename thunderbird delim foldername of
                  Inl e \<Rightarrow> Inl e
                | Inr filename \<Rightarrow>
                    get_names_loop lib thunderbird data (names @ [(foldername, filename)]))))"

definition get_names :: "pylib \<Rightarrow> server \<Rightarrow> bool \<Rightarrow> error + (string \<times> string) list" where
  "get_names lib srv thunderbird =
     (case list_folders srv of
        Raises \<Rightarrow> Inl ServerError
      | Reply typ data \<Rightarrow>
          if typ \<noteq> ''OK'' then Inl AssertionError
          else get_names_loop lib thunderbird data [])"

section \<open>main (lines 768-832)\<close>

text \<open>
  The options that the core reads. Reading the command line, connecting and creating the
  directories are outside the model and taken to have succeeded.
\<close>

record config =
  cfg_folders :: "string option"
  cfg_exclude_folders :: "string option"
  cfg_thunderbird :: bool
  cfg_overwrite :: bool

text \<open>The calls that \<open>main\<close> makes to the two sinks.\<close>

datatype sink_call =
    ResendMessages string string "(string, nat) pydict"
  | DownloadMessages string "(string, nat) pydict"

text \<open>
  The loop of lines 799-822. A SkipFolderException raised in the body is caught and the
  loop goes on; any other exception leaves the loop and ends the run.
\<close>

fun main_loop ::
  "pylib \<Rightarrow> server \<Rightarrow> smtp \<Rightarrow> disk \<Rightarrow> bool \<Rightarrow> string list \<Rightarrow> (string \<times> string) list \<Rightarrow>
   sink_call list \<times> (error + unit)" where
  "main_loop lib srv relay dsk overwrite exclude_folders [] = ([], Inr ())"
| "main_loop lib srv relay dsk overwrite exclude_folders ((foldername, filename) # names) =
     (if foldername \<in> set exclude_folders
      then main_loop lib srv relay dsk overwrite exclude_folders names
      else
        (case scan_folder lib srv foldername of
           Inl e \<Rightarrow>
             if e = SkipFolderException
             then main_loop lib srv relay dsk overwrite exclude_folders names
             else ([], Inl e)
         | Inr fol_messages \<Rightarrow>
            (let fil_messages = fst (scan_file dsk filename overwrite) in
             case reconcile fol_messages fil_messages of
               Inl e \<Rightarrow> ([], Inl e)
             | Inr new_messages \<Rightarrow>
                (let call = ResendMessages ''mx1.besserwisser.org'' ''haba@besserwisser.org''
                              new_messages
                 in case snd (resend_messages srv relay (quoted foldername)
                                ''mx1.besserwisser.org'' ''haba@besserwisser.org''
                                new_messages) of
                      Inl e \<Rightarrow>
                        if e = SkipFolderException
                        then (let (calls, r) =
                                    main_loop lib srv relay dsk overwrite exclude_folders names
                              in (call # calls, r))
                        else ([call], Inl e)
                    | Inr u \<Rightarrow>
                        (let (calls, r) =
                               main_loop lib srv relay dsk overwrite exclude_folders names
                         in (call # calls, r))))))"

text \<open>\<open>config.get(key)\<close> used as a condition.\<close>

definition truthy :: "string option \<Rightarrow> bool" where
  "truthy v = (case v of None \<Rightarrow> False | Some s \<Rightarrow> s \<noteq> [])"

text \<open>\<open>list(map(lambda x: x.strip(), value.split(',')))\<close>.\<close>

definition comma_list :: "string option \<Rightarrow> string list" where
  "comma_list v = (case v of None \<Rightarrow> [] | Some s \<Rightarrow> map str_strip (split_ne '','' [] s))"

text \<open>Lines 776-785: the folders to visit and the folders to leave out.\<close>

definition work_plan ::
  "pylib \<Rightarrow> server \<Rightarrow> config \<Rightarrow> error + ((string \<times> string) list \<times> string list)" where
  "work_plan lib srv cfg =
     (case get_names lib srv (cfg_thunderbird cfg) of
        Inl e \<Rightarrow> Inl e
      | Inr names \<Rightarrow>
          if truthy (cfg_folders cfg)
          then (let dirs = comma_list (cfg_folders cfg);
                    dirs = (if cfg_thunderbird cfg
                            then map (\<lambda>i. if startswith i ''Inbox''
                                           then replace_first ''Inbox'' ''INBOX'' i else i) dirs
                            else dirs)
                in Inr (filter (\<lambda>x. fst x \<in> set dirs) names, []))
          else if truthy (cfg_exclude_folders cfg)
          then Inr (names, comma_list (cfg_exclude_folders cfg))
          else Inr (names, []))"

definition main ::
  "pylib \<Rightarrow> server \<Rightarrow> smtp \<Rightarrow> disk \<Rightarrow> config \<Rightarrow> sink_call list \<times> (error + unit)" where
  "main lib srv relay dsk cfg =
     (if truthy (cfg_folders cfg) \<and> truthy (cfg_exclude_folders cfg)
      then ([], Inl SystemExit)
      else case work_plan lib srv cfg of
             Inl e \<Rightarrow> ([], Inl e)
           | Inr (names, exclude_folders) \<Rightarrow>
               main_loop lib srv relay dsk (cfg_overwrite cfg) exclude_folders names)"

section \<open>Statements of the specification\<close>

text \<open>
  The relay stage as the specification words it: every message of the batch, in order,
  gets one flag command, \<open>+FLAGS \Seen\<close> when its delivery succeeded and \<open>-FLAGS \Seen\<close>
  when it failed, and after every 30th message, delivered or not, there is one pause of
  60 seconds. \<open>ok i num\<close> tells whether the delivery of message \<open>num\<close>, at position \<open>i\<close>
  of the batch, succeeds.
\<close>

fun relay_schedule :: "(nat \<Rightarrow> nat \<Rightarrow> bool) \<Rightarrow> nat \<Rightarrow> nat list \<Rightarrow> event list" where
  "relay_schedule ok i [] = []"
| "relay_schedule ok i (num # nums) =
     Store num (if ok i num then ''+FLAGS'' else ''-FLAGS'') (BACKSLASH # ''Seen'')
     # (if (i + 1) mod 30 = 0 then [Sleep 60] else [])
     @ relay_schedule ok (i + 1) nums"

text \<open>The flag commands and the pauses among the effects.\<close>

definition flag_or_pause :: "event \<Rightarrow> bool" where
  "flag_or_pause e =
     (case e of Store num op flag \<Rightarrow> True | Sleep secs \<Rightarrow> True | _ \<Rightarrow> False)"

text \<open>The source answers both fetches of the relay stage for message \<open>num\<close>.\<close>

definition fetchable :: "server \<Rightarrow> string \<Rightarrow> nat \<Rightarrow> bool" where
  "fetchable srv folder num =
     (case fetch srv folder num BODY_PART of
        Reply typ (Some data) \<Rightarrow>
          typ = ''OK'' \<and>
          (case fetch srv folder num FROM_PART of
             Reply typ' (Some fromdata) \<Rightarrow> typ' = ''OK''
           | _ \<Rightarrow> False)
      | _ \<Rightarrow> False)"

text \<open>The relay accepts message \<open>num\<close> at position \<open>i\<close> of the batch.\<close>

definition delivered ::
  "server \<Rightarrow> smtp \<Rightarrow> string \<Rightarrow> string \<Rightarrow> string \<Rightarrow> nat \<Rightarrow> nat \<Rightarrow> bool" where
  "delivered srv relay folder mailserver mailuser i num =
     (case fetch srv folder num BODY_PART of
        Reply typ (Some data) \<Rightarrow>
          (case fetch srv folder num FROM_PART of
             Reply typ' (Some fromdata) \<Rightarrow>
               relay i mailserver (sender_of fromdata) mailuser (text_of_data data)
           | _ \<Rightarrow> False)
      | _ \<Rightarrow> False)"

text \<open>
  The NewMessageSet of a folder: the reconciliation of its remote index with the local
  index of its archive, when the folder scan succeeds.
\<close>

definition new_message_set ::
  "pylib \<Rightarrow> server \<Rightarrow> disk \<Rightarrow> bool \<Rightarrow> string \<times> string \<Rightarrow> (string, nat) pydict option" where
  "new_message_set lib srv dsk overwrite name_pair =
     (case scan_folder lib srv (fst name_pair) of
        Inl e \<Rightarrow> None
      | Inr fol_messages \<Rightarrow>
          (case reconcile fol_messages (fst (scan_file dsk (snd name_pair) overwrite)) of
             Inl e \<Rightarrow> None
           | Inr new_messages \<Rightarrow> Some new_messages))"

text \<open>
  What the specification has the run do with them: one call of the relay dispatcher per
  NewMessageSet, in the order of the folders, with the fixed relay host and recipient.
\<close>

definition expected_calls ::
  "pylib \<Rightarrow> server \<Rightarrow> disk \<Rightarrow> bool \<Rightarrow> string list \<Rightarrow> (string \<times> string) list \<Rightarrow>
   sink_call list" where
  "expected_calls lib srv dsk overwrite exclude_folders names =
     map (ResendMessages ''mx1.besserwisser.org'' ''haba@besserwisser.org'')
       (List.map_filter (new_message_set lib srv dsk overwrite)
          (filter (\<lambda>name_pair. fst name_pair \<notin> set exclude_folders) names))"

section \<open>Example runs\<close>

text \<open>
  Concrete collaborators on which the theorems below are evaluated. On ASCII input the
  UTF-8 codecs are the identity; the digest stays a parameter.
\<close>

definition ascii_lib :: "(string \<Rightarrow> string) \<Rightarrow> pylib" where
  "ascii_lib h =
     \<lparr>decode_replace = (\<lambda>b. b), decode_strict = (\<lambda>b. Some b),
      encode_utf8 = (\<lambda>s. s), sha1_hexdigest = h\<rparr>"

text \<open>
  A server that answers every command with OK: the LIST rows, the numbers of the UNSEEN
  search, and the literal of each part of each message.
\<close>

definition example_server ::
  "string list \<Rightarrow> nat list \<Rightarrow> (nat \<Rightarrow> string \<Rightarrow> string option) \<Rightarrow> server" where
  "example_server rows unseen parts =
     \<lparr>list_folders = Reply ''OK'' rows,
      select = (\<lambda>f. Reply ''OK'' ()),
      search = (\<lambda>f. Reply ''OK'' unseen),
      fetch = (\<lambda>f n part. Reply ''OK'' (parts n part))\<rparr>"

text \<open>Two messages without Message-Id whose From and Subject headers are the same bytes.\<close>

definition twin_parts :: "nat \<Rightarrow> string \<Rightarrow> string option" where
  "twin_parts n part =
     (if part = MSGID_PART then Some [CR, LF]
      else if part = HEADERS_PART
      then Some (''From: a@x'' @ [CR, LF] @ ''Subject: hi'' @ [CR, LF, CR, LF])
      else None)"

text \<open>Two messages that carry the same Message-Id.\<close>

definition same_id_parts :: "nat \<Rightarrow> string \<Rightarrow> string option" where
  "same_id_parts n part =
     (if part = MSGID_PART then Some (''Message-Id: <a@x>'' @ [CR, LF, CR, LF]) else None)"

text \<open>
  A mailbox of three messages: number 1 has Message-Id \<open><a@x>\<close>, number 2 has none,
  number 3 has Message-Id \<open><c@x>\<close> folded over two lines. \<open>shifted_parts\<close> is the same
  mailbox after a message was put in front, so that every number is one higher.
\<close>

definition mixed_parts :: "nat \<Rightarrow> string \<Rightarrow> string option" where
  "mixed_parts n part =
     (if part = MSGID_PART
      then (if n = 1 then Some (''Message-Id: <a@x>'' @ [CR, LF, CR, LF])
            else if n = 3 then Some (''MESSAGE-ID:'' @ [CR, LF, TAB] @ ''<c@x>'' @ [CR, LF, CR, LF])
            else Some [CR, LF])
      else if part = HEADERS_PART
      then Some (''From: a@x'' @ [CR, LF] @ ''Subject: hi'' @ [CR, LF, CR, LF])
      else Some (''From: a@x'' @ [CR, LF, CR, LF] @ ''hello'' @ [CR, LF]))"

definition shifted_parts :: "nat \<Rightarrow> string \<Rightarrow> string option" where
  "shifted_parts n part = mixed_parts (n - 1) part"

text \<open>
  A stand-in for the SHA-1 digest in the examples. The theorems hold for every digest
  function; the examples need one that can be evaluated.
\<close>

definition example_digest :: "string \<Rightarrow> string" where
  "example_digest b = b"

text \<open>
  An archive of three messages: the first has Message-Id \<open><a@x>\<close>, the second has
  no Message-Id header, the third has an empty one.
\<close>

definition example_disk :: disk where
  "example_disk filename =
     (if filename = ''INBOX.mbox'' then Some [Some ''<a@x>'', None, Some ''''] else None)"

text \<open>
  LIST rows: \<open>(\HasNoChildren) "/" "INBOX/INBOX"\<close>, \<open>(\HasNoChildren) "/" "Work/INBOX"\<close>,
  \<open>(\HasNoChildren) "/" INBOX\<close>, and a row that lacks the folder name.
\<close>

definition row_inbox_inbox :: string where
  "row_inbox_inbox =
     ''('' @ [BACKSLASH] @ ''HasNoChildren) '' @ [DQUOTE] @ ''/'' @ [DQUOTE] @ '' ''
     @ [DQUOTE] @ ''INBOX/INBOX'' @ [DQUOTE]"

definition row_work_inbox :: string where
  "row_work_inbox =
     ''('' @ [BACKSLASH] @ ''HasNoChildren) '' @ [DQUOTE] @ ''/'' @ [DQUOTE] @ '' ''
     @ [DQUOTE] @ ''Work/INBOX'' @ [DQUOTE]"

definition row_inbox :: string where
  "row_inbox = ''('' @ [BACKSLASH] @ ''HasNoChildren) '' @ [DQUOTE] @ ''/'' @ [DQUOTE] @ '' INBOX''"

definition row_short :: string where
  "row_short = ''('' @ [BACKSLASH] @ ''HasNoChildren) '' @ [DQUOTE] @ ''/'' @ [DQUOTE]"

text \<open>
  Message 1 begins with a line \<open>From spoofed\<close> and has a line \<open>From inner\<close> in its body;
  message 2 has no header lines, and its body is the one line \<open>From spoofed\<close>.
\<close>

definition spoof_parts :: "nat \<Rightarrow> string \<Rightarrow> string option" where
  "spoof_parts n part =
     (if n = 1
      then Some (''From spoofed'' @ [CR, LF] @ ''Subject: x'' @ [CR, LF, CR, LF]
                 @ ''From inner'' @ [CR, LF])
      else Some ([CR, LF] @ ''From spoofed'' @ [CR, LF]))"

text \<open>
  Every message of the source has the same content. The relay refuses the message at
  position 30 of a batch, the 31st, and accepts every other one. The batch has 35
  messages, numbered 1 to 35.
\<close>

definition relay_parts :: "nat \<Rightarrow> string \<Rightarrow> string option" where
  "relay_parts n part =
     (if part = FROM_PART then Some (''From: a@x'' @ [CR, LF, CR, LF])
      else Some (''From: a@x'' @ [CR, LF, CR, LF] @ ''hello'' @ [CR, LF]))"

definition flaky_relay :: smtp where
  "flaky_relay i mailserver sender recipient text = (i \<noteq> 30)"

definition steady_relay :: smtp where
  "steady_relay i mailserver sender recipient text = True"

definition batch35 :: "(string, nat) pydict" where
  "batch35 = map (\<lambda>n. (''<'' @ replicate n (CHR ''m'') @ ''@x>'', n)) [1..<36]"

definition default_config :: config where
  "default_config =
     \<lparr>cfg_folders = None, cfg_exclude_folders = None,
      cfg_thunderbird = False, cfg_overwrite = False\<rparr>"

section \<open>Properties of dictionaries\<close>

lemma dict_set_append:
  "k \<notin> set (map fst d) \<Longrightarrow> dict_set d k v = d @ [(k, v)]"
  by (induction d) auto

lemma fst_set_dict_set:
  "set (map fst (dict_set d k v)) = insert k (set (map fst d))"
proof (induction d)
  case Nil
  show ?case by simp
next
  case (Cons p d)
  obtain a b where p: "p = (a, b)" by (cases p)
  show ?case
  proof (cases "a = k")
    case True
    then show ?thesis using p by simp
  next
    case False
    then show ?thesis using p Cons by (simp add: insert_commute)
  qed
qed

lemma dict_keys_dict_set:
  "set (dict_keys (dict_set d k v)) = insert k (set (dict_keys d))"
  by (simp only: dict_keys_def fst_set_dict_set)

lemma distinct_dict_set:
  "distinct (dict_keys d) \<Longrightarrow> distinct (dict_keys (dict_set d k v))"
  unfolding dict_keys_def
proof (induction d)
  case Nil
  show ?case by simp
next
  case (Cons p d)
  obtain a b where p: "p = (a, b)" by (cases p)
  have keys: "set (map fst (dict_set d k v)) = insert k (set (map fst d))"
    by (rule fst_set_dict_set)
  show ?case
  proof (cases "a = k")
    case True
    then show ?thesis using p Cons.prems by simp
  next
    case False
    have "a \<notin> set (map fst (dict_set d k v))"
      using False Cons.prems p unfolding keys by simp
    moreover have "distinct (map fst (dict_set d k v))"
      using Cons by simp
    ultimately show ?thesis using False p by simp
  qed
qed

lemma map_of_dict_set:
  "map_of (dict_set d k v) = (map_of d)(k \<mapsto> v)"
  by (induction d) (auto simp: fun_eq_iff)

section \<open>Reconciliation is the order-preserving difference\<close>

lemma reconcile_loop_filter:
  assumes "distinct (map fst (done @ todo))"
    and "fol = done @ todo"
    and "new = filter (\<lambda>(k, n). \<not> dict_has fil k) done"
  shows "reconcile_loop (map fst todo) fol fil new
         = Inr (filter (\<lambda>(k, n). \<not> dict_has fil k) fol)"
  using assms
proof (induction todo arbitrary: "done" new)
  case Nil
  then show ?case by simp
next
  case (Cons p todo)
  obtain k n where p: "p = (k, n)" by (cases p)
  have dist: "distinct (map fst fol)" using Cons.prems by simp
  have mem: "(k, n) \<in> set fol" using Cons.prems p by simp
  have look: "map_of fol k = Some n" using dist mem by simp
  have fresh: "k \<notin> set (map fst new)"
  proof -
    have "k \<notin> set (map fst done)" using Cons.prems(1) p by auto
    moreover have "set (map fst new) \<subseteq> set (map fst done)"
      using Cons.prems(3) by auto
    ultimately show ?thesis by blast
  qed
  have step: "reconcile_loop (map fst todo) fol fil
                (filter (\<lambda>(k, n). \<not> dict_has fil k) (done @ [p]))
              = Inr (filter (\<lambda>(k, n). \<not> dict_has fil k) fol)"
    using Cons.IH [of "done @ [p]" "filter (\<lambda>(k, n). \<not> dict_has fil k) (done @ [p])"]
      Cons.prems(1,2) by simp
  show ?case
  proof (cases "dict_has fil k")
    case True
    with step Cons.prems(3) p show ?thesis by simp
  next
    case False
    with step Cons.prems(3) p look fresh show ?thesis
      by (simp add: dict_get_def dict_set_append)
  qed
qed

lemma reconcile_filter:
  "distinct (dict_keys fol) \<Longrightarrow>
   reconcile fol fil = Inr (filter (\<lambda>(k, n). \<not> dict_has fil k) fol)"
  unfolding reconcile_def dict_keys_def
  using reconcile_loop_filter [of "[]" fol fol "[]" fil] by simp

text \<open>
  C1. For every remote index (a dict, so its keys are distinct) and every local index,
  the reconciliation returns a dict that holds an identifier exactly when the remote
  index holds it and the local index does not, gives each such identifier the sequence
  number the remote index gives it, and lists the identifiers in the insertion order of
  the remote index.
\<close>

theorem reconcile_new_message_set:
  assumes "distinct (dict_keys remote)"
  shows "\<exists>new. reconcile remote local = Inr new
           \<and> (\<forall>k. dict_has new k \<longleftrightarrow> dict_has remote k \<and> \<not> dict_has local k)
           \<and> (\<forall>k. dict_has new k \<longrightarrow> dict_get new k = dict_get remote k)
           \<and> dict_keys new = filter (\<lambda>k. \<not> dict_has local k) (dict_keys remote)
           \<and> distinct (dict_keys new)"
proof -
  let ?new = "filter (\<lambda>(k, n). \<not> dict_has local k) remote"
  have r: "reconcile remote local = Inr ?new"
    using assms by (rule reconcile_filter)
  have keys: "dict_keys ?new = filter (\<lambda>k. \<not> dict_has local k) (dict_keys remote)"
    by (induction remote) (auto simp: dict_keys_def)
  have has: "\<forall>k. dict_has ?new k \<longleftrightarrow> dict_has remote k \<and> \<not> dict_has local k"
    using keys by (auto simp: dict_has_def dict_keys_def)
  have dist: "distinct (dict_keys ?new)"
    using assms keys by simp
  have get: "\<forall>k. dict_has ?new k \<longrightarrow> dict_get ?new k = dict_get remote k"
  proof (intro allI impI)
    fix k assume "dict_has ?new k"
    then obtain n where n: "(k, n) \<in> set ?new"
      by (auto simp: dict_has_def)
    then have "(k, n) \<in> set remote" by simp
    with assms have "map_of remote k = Some n" by (simp add: dict_keys_def)
    moreover from dist n have "map_of ?new k = Some n" by (simp add: dict_keys_def)
    ultimately show "dict_get ?new k = dict_get remote k"
      by (simp add: dict_get_def)
  qed
  from r has get keys dist show ?thesis by blast
qed

theorem reconcile_new_message_set_witness:
  "distinct (dict_keys [(''<c@x>'', 3), (''<a@x>'', 1), (''<b@x>'', 2 :: nat)])
   \<and> reconcile [(''<c@x>'', 3), (''<a@x>'', 1), (''<b@x>'', 2)] [(''<a@x>'', ''<a@x>'')]
       = Inr [(''<c@x>'', 3), (''<b@x>'', 2)]"
proof -
  have d: "distinct (dict_keys [(''<c@x>'', 3), (''<a@x>'', 1), (''<b@x>'', 2 :: nat)])"
    by (simp add: dict_keys_def)
  from reconcile_new_message_set [OF d, of "[(''<a@x>'', ''<a@x>'')]"]
  obtain new where
    "reconcile [(''<c@x>'', 3), (''<a@x>'', 1), (''<b@x>'', 2)] [(''<a@x>'', ''<a@x>'')]
       = Inr new" by blast
  moreover have
    "reconcile [(''<c@x>'', 3), (''<a@x>'', 1), (''<b@x>'', 2)] [(''<a@x>'', ''<a@x>'')]
       = Inr [(''<c@x>'', 3), (''<b@x>'', 2)]"
    by (simp add: reconcile_def dict_keys_def dict_has_def dict_get_def)
  ultimately show ?thesis using d by simp
qed

section \<open>The remote index\<close>

lemma snd_set_dict_set:
  "snd ` set (dict_set d k v) \<subseteq> insert v (snd ` set d)"
proof (induction d)
  case Nil
  show ?case by simp
next
  case (Cons p d)
  obtain a b where p: "p = (a, b)" by (cases p)
  show ?case
  proof (cases "a = k")
    case True
    then show ?thesis using p by auto
  next
    case False
    then show ?thesis using p Cons by auto
  qed
qed

lemma dict_has_dict_set:
  "dict_has (dict_set d k v) k' \<longleftrightarrow> k' = k \<or> dict_has d k'"
  using fst_set_dict_set [of d k v] by (auto simp: dict_has_def)

lemma scan_message_values:
  "scan_message lib srv folder n m = Inr m' \<Longrightarrow> snd ` set m' \<subseteq> insert n (snd ` set m)"
  using snd_set_dict_set [of m _ n]
  by (auto simp: scan_message_def split: reply.splits if_splits option.splits)

lemma scan_message_distinct:
  "scan_message lib srv folder n m = Inr m' \<Longrightarrow> distinct (dict_keys m)
   \<Longrightarrow> distinct (dict_keys m')"
  by (auto simp: scan_message_def distinct_dict_set split: reply.splits if_splits option.splits)

lemma scan_message_mono:
  "scan_message lib srv folder n m = Inr m' \<Longrightarrow> dict_has m k \<Longrightarrow> dict_has m' k"
  by (auto simp: scan_message_def dict_has_dict_set split: reply.splits if_splits option.splits)

lemma scan_loop_values:
  "scan_loop lib srv folder ns m = Inr idx \<Longrightarrow> snd ` set idx \<subseteq> set ns \<union> snd ` set m"
proof (induction ns arbitrary: m)
  case Nil
  then show ?case by simp
next
  case (Cons n ns)
  then obtain m' where m': "scan_message lib srv folder n m = Inr m'"
    and rest: "scan_loop lib srv folder ns m' = Inr idx"
    by (auto split: sum.splits)
  from Cons.IH [OF rest] scan_message_values [OF m'] show ?case by auto
qed

lemma scan_loop_distinct:
  "scan_loop lib srv folder ns m = Inr idx \<Longrightarrow> distinct (dict_keys m)
   \<Longrightarrow> distinct (dict_keys idx)"
proof (induction ns arbitrary: m)
  case Nil
  then show ?case by simp
next
  case (Cons n ns)
  then obtain m' where m': "scan_message lib srv folder n m = Inr m'"
    and rest: "scan_loop lib srv folder ns m' = Inr idx"
    by (auto split: sum.splits)
  from Cons.IH [OF rest scan_message_distinct [OF m' Cons.prems(2)]] show ?case .
qed

lemma scan_loop_mono:
  "scan_loop lib srv folder ns m = Inr idx \<Longrightarrow> dict_has m k \<Longrightarrow> dict_has idx k"
proof (induction ns arbitrary: m)
  case Nil
  then show ?case by simp
next
  case (Cons n ns)
  then obtain m' where m': "scan_message lib srv folder n m = Inr m'"
    and rest: "scan_loop lib srv folder ns m' = Inr idx"
    by (auto split: sum.splits)
  from Cons.IH [OF rest scan_message_mono [OF m' Cons.prems(2)]] show ?case .
qed

lemma scan_loop_visits:
  "scan_loop lib srv folder ns m = Inr idx \<Longrightarrow> n \<in> set ns \<Longrightarrow>
   \<exists>m0 m1. scan_message lib srv folder n m0 = Inr m1
     \<and> (\<forall>k. dict_has m1 k \<longrightarrow> dict_has idx k)"
proof (induction ns arbitrary: m)
  case Nil
  then show ?case by simp
next
  case (Cons a ns)
  then obtain m' where m': "scan_message lib srv folder a m = Inr m'"
    and rest: "scan_loop lib srv folder ns m' = Inr idx"
    by (auto split: sum.splits)
  show ?case
  proof (cases "n = a")
    case True
    with m' scan_loop_mono [OF rest] show ?thesis by blast
  next
    case False
    with Cons.prems have "n \<in> set ns" by simp
    from Cons.IH [OF rest this] show ?thesis .
  qed
qed

lemma scan_folder_loop:
  assumes "scan_folder lib srv f = Inr idx"
  shows "\<exists>ns. search srv (quoted f) = Reply ''OK'' ns
           \<and> scan_loop lib srv (quoted f) ns [] = Inr idx"
  using assms by (auto simp: scan_folder_def Let_def split: reply.splits if_splits)

lemma scan_folder_distinct:
  assumes "scan_folder lib srv f = Inr idx"
  shows "distinct (dict_keys idx)"
proof -
  from scan_folder_loop [OF assms] obtain ns
    where "scan_loop lib srv (quoted f) ns [] = Inr idx" by blast
  then show ?thesis by (rule scan_loop_distinct) (simp add: dict_keys_def)
qed

lemma scan_message_genuine:
  assumes "scan_message lib srv folder n m = Inr m'"
    and "fetch srv folder n MSGID_PART = Reply ''OK'' (Some b)"
    and "msgid_match (header_of lib b) = Some i"
  shows "dict_has m' i"
  using assms by (auto simp: scan_message_def dict_has_dict_set split: if_splits)

lemma scan_message_synth:
  assumes "scan_message lib srv folder n m = Inr m'"
    and "fetch srv folder n MSGID_PART = Reply ''OK'' (Some b)"
    and "msgid_match (header_of lib b) = None"
    and "fetch srv folder n HEADERS_PART = Reply ''OK'' (Some hb)"
  shows "dict_has m' (synth_msgid lib hb)"
  using assms by (auto simp: scan_message_def dict_has_dict_set split: if_splits)

lemma blanks_sub_no_lf: "LF \<notin> set (blanks_sub s)"
  by (induction s rule: blanks_sub.induct) (auto simp: str_isspace_def)

lemma msgid_match_collapsed:
  assumes "msgid_match (blanks_sub s) = Some i"
  shows "i = drop 12 (blanks_sub s) \<and> map lower_ascii (take 12 (blanks_sub s)) = ''message-id: ''"
proof -
  have "LF \<notin> set (drop 12 (blanks_sub s))"
    using blanks_sub_no_lf [of s] by (auto dest: in_set_dropD)
  then have "takeWhile (\<lambda>c. c \<noteq> LF) (drop 12 (blanks_sub s)) = drop 12 (blanks_sub s)"
    by (intro takeWhile_eq_all_conv [THEN iffD2]) auto
  with assms show ?thesis
    by (auto simp: msgid_match_def Let_def split: if_splits)
qed

lemma reconcile_loop_values:
  "reconcile_loop ks fol fil new = Inr r \<Longrightarrow> snd ` set r \<subseteq> snd ` set new \<union> snd ` set fol"
proof (induction ks arbitrary: new)
  case Nil
  then show ?case by simp
next
  case (Cons k ks)
  show ?case
  proof (cases "dict_has fil k")
    case True
    with Cons show ?thesis by simp
  next
    case False
    with Cons.prems obtain n where g: "dict_get fol k = Inr n"
      and rest: "reconcile_loop ks fol fil (dict_set new k n) = Inr r"
      by (auto split: sum.splits)
    from g have "map_of fol k = Some n"
      by (auto simp: dict_get_def split: option.splits)
    then have "(k, n) \<in> set fol" by (rule map_of_SomeD)
    then have "n \<in> snd ` set fol" by force
    with Cons.IH [OF rest] snd_set_dict_set [of new k n] show ?thesis by auto
  qed
qed

lemma reconcile_values:
  "reconcile fol fil = Inr new \<Longrightarrow> snd ` set new \<subseteq> snd ` set fol"
  using reconcile_loop_values [of "dict_keys fol" fol fil "[]" new]
  by (simp add: reconcile_def)

lemmas scan_eval =
  scan_folder_def scan_message_def example_server_def ascii_lib_def quoted_def
  header_of_def synth_msgid_def str_strip_def strip_with_def str_isspace_def msgid_match_def
  py_replace_def startswith_def MSGID_PART_def HEADERS_PART_def lower_ascii_def dict_has_def
  UUID_def

text \<open>
  C2. The claim is that a folder scan keeps, for an identifier that arises from two
  message numbers, the number seen first, for synthesized identifiers as for genuine
  ones. The scan does so for a genuine Message-Id, where the assignment is guarded by
  \<open>if msg_id not in messages.keys()\<close>. The assignment of a synthesized identifier has no
  such guard: of two messages without Message-Id and with the same From/To/Cc/Date/Subject
  bytes, numbered 1 and 2, the remote index keeps number 2.
\<close>

theorem synthesized_duplicate_keeps_last_number:
  "scan_folder (ascii_lib h) (example_server [] [1, 2] same_id_parts) ''INBOX''
     = Inr [(''<a@x>'', 1)]
   \<and> scan_folder (ascii_lib h) (example_server [] [1, 2] twin_parts) ''INBOX''
     = Inr [(''<'' @ UUID @ ''.'' @ h (''From: a@x'' @ [TAB] @ ''Subject: hi'') @ ''>'', 2)]"
  by (simp add: scan_eval twin_parts_def same_id_parts_def)

text \<open>
  C3. Message identity depends on the header bytes only. Take two scans that succeed, of
  any two servers and folders, and a message of each. If neither has a usable Message-Id
  and the From/To/Cc/Date/Subject fetches return the same bytes, both remote indexes hold
  the same identifier \<open><UUID.digest>\<close>, the digest being taken of the stripped header
  block with every CR LF replaced by one tab. If the Message-Id fetches return the same
  bytes with a usable Message-Id, both remote indexes hold the same identifier, the
  white-space-collapsed header text after \<open>Message-Id: \<close>.
\<close>

theorem message_identity_deterministic:
  assumes run1: "scan_folder lib srv1 f1 = Inr idx1"
    and run2: "scan_folder lib srv2 f2 = Inr idx2"
    and s1: "search srv1 (quoted f1) = Reply t1 ns1"
    and s2: "search srv2 (quoted f2) = Reply t2 ns2"
  shows "(\<forall>n1 n2 b1 b2 hb.
            n1 \<in> set ns1 \<and> n2 \<in> set ns2
          \<and> fetch srv1 (quoted f1) n1 MSGID_PART = Reply ''OK'' (Some b1)
          \<and> fetch srv2 (quoted f2) n2 MSGID_PART = Reply ''OK'' (Some b2)
          \<and> msgid_match (header_of lib b1) = None \<and> msgid_match (header_of lib b2) = None
          \<and> fetch srv1 (quoted f1) n1 HEADERS_PART = Reply ''OK'' (Some hb)
          \<and> fetch srv2 (quoted f2) n2 HEADERS_PART = Reply ''OK'' (Some hb)
          \<longrightarrow> (\<exists>ident. dict_has idx1 ident \<and> dict_has idx2 ident
                 \<and> ident = ''<'' @ UUID @ ''.''
                     @ sha1_hexdigest lib (encode_utf8 lib
                         (py_replace (str_strip (decode_replace lib hb)) [CR, LF] [TAB]))
                     @ ''>''))
       \<and> (\<forall>n1 n2 b i.
            n1 \<in> set ns1 \<and> n2 \<in> set ns2
          \<and> fetch srv1 (quoted f1) n1 MSGID_PART = Reply ''OK'' (Some b)
          \<and> fetch srv2 (quoted f2) n2 MSGID_PART = Reply ''OK'' (Some b)
          \<and> msgid_match (header_of lib b) = Some i
          \<longrightarrow> dict_has idx1 i \<and> dict_has idx2 i
            \<and> i = drop 12 (blanks_sub (str_strip (decode_replace lib b))))"
proof -
  from scan_folder_loop [OF run1] s1 have l1: "scan_loop lib srv1 (quoted f1) ns1 [] = Inr idx1"
    by auto
  from scan_folder_loop [OF run2] s2 have l2: "scan_loop lib srv2 (quoted f2) ns2 [] = Inr idx2"
    by auto
  have synth: "dict_has idx1 (synth_msgid lib hb) \<and> dict_has idx2 (synth_msgid lib hb)"
    if "n1 \<in> set ns1" "n2 \<in> set ns2"
      "fetch srv1 (quoted f1) n1 MSGID_PART = Reply ''OK'' (Some b1)"
      "fetch srv2 (quoted f2) n2 MSGID_PART = Reply ''OK'' (Some b2)"
      "msgid_match (header_of lib b1) = None" "msgid_match (header_of lib b2) = None"
      "fetch srv1 (quoted f1) n1 HEADERS_PART = Reply ''OK'' (Some hb)"
      "fetch srv2 (quoted f2) n2 HEADERS_PART = Reply ''OK'' (Some hb)"
    for n1 n2 b1 b2 hb
  proof -
    from scan_loop_visits [OF l1 that(1)] obtain m0 m1
      where v1: "scan_message lib srv1 (quoted f1) n1 m0 = Inr m1"
        and k1: "\<And>k. dict_has m1 k \<Longrightarrow> dict_has idx1 k" by blast
    from scan_loop_visits [OF l2 that(2)] obtain m2 m3
      where v2: "scan_message lib srv2 (quoted f2) n2 m2 = Inr m3"
        and k2: "\<And>k. dict_has m3 k \<Longrightarrow> dict_has idx2 k" by blast
    from scan_message_synth [OF v1 that(3,5,7)] scan_message_synth [OF v2 that(4,6,8)] k1 k2
    show ?thesis by blast
  qed
  have genuine: "dict_has idx1 i \<and> dict_has idx2 i
                 \<and> i = drop 12 (blanks_sub (str_strip (decode_replace lib b)))"
    if "n1 \<in> set ns1" "n2 \<in> set ns2"
      "fetch srv1 (quoted f1) n1 MSGID_PART = Reply ''OK'' (Some b)"
      "fetch srv2 (quoted f2) n2 MSGID_PART = Reply ''OK'' (Some b)"
      "msgid_match (header_of lib b) = Some i"
    for n1 n2 b i
  proof -
    from scan_loop_visits [OF l1 that(1)] obtain m0 m1
      where v1: "scan_message lib srv1 (quoted f1) n1 m0 = Inr m1"
        and k1: "\<And>k. dict_has m1 k \<Longrightarrow> dict_has idx1 k" by blast
    from scan_loop_visits [OF l2 that(2)] obtain m2 m3
      where v2: "scan_message lib srv2 (quoted f2) n2 m2 = Inr m3"
        and k2: "\<And>k. dict_has m3 k \<Longrightarrow> dict_has idx2 k" by blast
    from that(5) have "i = drop 12 (blanks_sub (str_strip (decode_replace lib b)))"
      using msgid_match_collapsed [of "str_strip (decode_replace lib b)" i]
      by (simp add: header_of_def)
    with scan_message_genuine [OF v1 that(3,5)] scan_message_genuine [OF v2 that(4,5)] k1 k2
    show ?thesis by blast
  qed
  show ?thesis
    using synth genuine by (auto simp: synth_msgid_def Let_def)
qed

theorem message_identity_deterministic_witness:
  "scan_folder (ascii_lib example_digest) (example_server [] [1, 2, 3] mixed_parts) ''INBOX''
     = Inr [(''<a@x>'', 1),
            (''<'' @ UUID @ ''.'' @ example_digest (''From: a@x'' @ [TAB] @ ''Subject: hi'') @ ''>'', 2),
            (''<c@x>'', 3)]
   \<and> scan_folder (ascii_lib example_digest) (example_server [] [3, 4] shifted_parts) ''Sent''
     = Inr [(''<'' @ UUID @ ''.'' @ example_digest (''From: a@x'' @ [TAB] @ ''Subject: hi'') @ ''>'', 3),
            (''<c@x>'', 4)]
   \<and> (\<exists>ident. dict_has [(''<a@x>'', 1),
            (''<'' @ UUID @ ''.'' @ example_digest (''From: a@x'' @ [TAB] @ ''Subject: hi'') @ ''>'', 2),
            (''<c@x>'', 3 :: nat)] ident
         \<and> dict_has [(''<'' @ UUID @ ''.'' @ example_digest (''From: a@x'' @ [TAB] @ ''Subject: hi'') @ ''>'', 3),
            (''<c@x>'', 4 :: nat)] ident
         \<and> ident = ''<'' @ UUID @ ''.'' @ example_digest (''From: a@x'' @ [TAB] @ ''Subject: hi'') @ ''>'')
   \<and> dict_has [(''<a@x>'', 1),
            (''<'' @ UUID @ ''.'' @ example_digest (''From: a@x'' @ [TAB] @ ''Subject: hi'') @ ''>'', 2),
            (''<c@x>'', 3 :: nat)] ''<c@x>''
   \<and> dict_has [(''<'' @ UUID @ ''.'' @ example_digest (''From: a@x'' @ [TAB] @ ''Subject: hi'') @ ''>'', 3),
            (''<c@x>'', 4 :: nat)] ''<c@x>''"
proof -
  let ?s1 = "example_server [] [1, 2, 3] mixed_parts"
  let ?s2 = "example_server [] [3, 4] shifted_parts"
  let ?lib = "ascii_lib example_digest"
  let ?synth = "''<'' @ UUID @ ''.'' @ example_digest (''From: a@x'' @ [TAB] @ ''Subject: hi'') @ ''>''"
  let ?i1 = "[(''<a@x>'', 1), (?synth, 2), (''<c@x>'', 3 :: nat)]"
  let ?i2 = "[(?synth, 3), (''<c@x>'', 4 :: nat)]"
  have run1: "scan_folder ?lib ?s1 ''INBOX'' = Inr ?i1"
    by (simp add: scan_eval mixed_parts_def)
  have run2: "scan_folder ?lib ?s2 ''Sent'' = Inr ?i2"
    by (simp add: scan_eval mixed_parts_def shifted_parts_def)
  have s1: "search ?s1 (quoted ''INBOX'') = Reply ''OK'' [1, 2, 3]"
    by (simp add: example_server_def)
  have s2: "search ?s2 (quoted ''Sent'') = Reply ''OK'' [3, 4]"
    by (simp add: example_server_def)
  note det = message_identity_deterministic [OF run1 run2 s1 s2]
  have hyps: "2 \<in> set [1, 2, 3 :: nat] \<and> 3 \<in> set [3, 4 :: nat]
          \<and> fetch ?s1 (quoted ''INBOX'') 2 MSGID_PART = Reply ''OK'' (Some [CR, LF])
          \<and> fetch ?s2 (quoted ''Sent'') 3 MSGID_PART = Reply ''OK'' (Some [CR, LF])
          \<and> msgid_match (header_of ?lib [CR, LF]) = None
          \<and> msgid_match (header_of ?lib [CR, LF]) = None
          \<and> fetch ?s1 (quoted ''INBOX'') 2 HEADERS_PART
              = Reply ''OK'' (Some (''From: a@x'' @ [CR, LF] @ ''Subject: hi'' @ [CR, LF, CR, LF]))
          \<and> fetch ?s2 (quoted ''Sent'') 3 HEADERS_PART
              = Reply ''OK'' (Some (''From: a@x'' @ [CR, LF] @ ''Subject: hi'' @ [CR, LF, CR, LF]))"
    by (simp add: scan_eval mixed_parts_def shifted_parts_def)
  have form: "py_replace (str_strip (decode_replace ?lib
                 (''From: a@x'' @ [CR, LF] @ ''Subject: hi'' @ [CR, LF, CR, LF]))) [CR, LF] [TAB]
              = ''From: a@x'' @ [TAB] @ ''Subject: hi''"
    by (simp add: scan_eval)
  have syn: "\<exists>ident. dict_has ?i1 ident \<and> dict_has ?i2 ident \<and> ident = ?synth"
    using det [THEN conjunct1, rule_format, OF hyps] unfolding form
    by (simp add: ascii_lib_def)
  have hyps': "3 \<in> set [1, 2, 3 :: nat] \<and> 4 \<in> set [3, 4 :: nat]
          \<and> fetch ?s1 (quoted ''INBOX'') 3 MSGID_PART
              = Reply ''OK'' (Some (''MESSAGE-ID:'' @ [CR, LF, TAB] @ ''<c@x>'' @ [CR, LF, CR, LF]))
          \<and> fetch ?s2 (quoted ''Sent'') 4 MSGID_PART
              = Reply ''OK'' (Some (''MESSAGE-ID:'' @ [CR, LF, TAB] @ ''<c@x>'' @ [CR, LF, CR, LF]))
          \<and> msgid_match (header_of ?lib
                (''MESSAGE-ID:'' @ [CR, LF, TAB] @ ''<c@x>'' @ [CR, LF, CR, LF])) = Some ''<c@x>''"
    by (simp add: scan_eval mixed_parts_def shifted_parts_def)
  note g = det [THEN conjunct2, rule_format, OF hyps']
  have gen: "dict_has ?i1 ''<c@x>'' \<and> dict_has ?i2 ''<c@x>''"
    using g [THEN conjunct1] g [THEN conjunct2, THEN conjunct1] by (intro conjI)
  note gen1 = gen [THEN conjunct1] and gen2 = gen [THEN conjunct2]
  from run1 run2 syn gen1 gen2 show ?thesis by (intro conjI)
qed

text \<open>
  C9. Every sequence number in the remote index of a folder scan is one of the numbers
  that the server's UNSEEN search returned, and so is every sequence number in the
  NewMessageSet, whatever the local index holds. Hence, for a server whose UNSEEN search
  returns no message flagged \<open>\Seen\<close>, a message flagged \<open>\Seen\<close> is in neither.
\<close>

theorem remote_index_only_unseen:
  assumes "scan_folder lib srv foldername = Inr fol_messages"
    and "search srv (quoted foldername) = Reply typ msg_numbers"
  shows "snd ` set fol_messages \<subseteq> set msg_numbers
       \<and> (\<forall>fil_messages. \<exists>new_messages.
             reconcile fol_messages fil_messages = Inr new_messages
             \<and> snd ` set new_messages \<subseteq> set msg_numbers)
       \<and> (\<forall>seen n. (\<forall>m \<in> set msg_numbers. \<not> seen m) \<and> seen n
             \<longrightarrow> n \<notin> snd ` set fol_messages
               \<and> (\<forall>fil_messages new_messages.
                     reconcile fol_messages fil_messages = Inr new_messages
                     \<longrightarrow> n \<notin> snd ` set new_messages))"
proof -
  from scan_folder_loop [OF assms(1)] assms(2)
  have l: "scan_loop lib srv (quoted foldername) msg_numbers [] = Inr fol_messages" by auto
  from scan_loop_values [OF l] have v: "snd ` set fol_messages \<subseteq> set msg_numbers" by simp
  have r: "snd ` set new \<subseteq> set msg_numbers"
    if "reconcile fol_messages fil = Inr new" for fil new
    using reconcile_values [OF that] v by blast
  have total: "\<exists>new. reconcile fol_messages fil = Inr new" for fil
    by (rule exI, rule reconcile_filter [OF scan_folder_distinct [OF assms(1)]])
  have a: "\<forall>fil_messages. \<exists>new_messages.
             reconcile fol_messages fil_messages = Inr new_messages
             \<and> snd ` set new_messages \<subseteq> set msg_numbers"
  proof
    fix fil
    from total obtain new where n: "reconcile fol_messages fil = Inr new" ..
    from n r [OF n]
    show "\<exists>new_messages. reconcile fol_messages fil = Inr new_messages
            \<and> snd ` set new_messages \<subseteq> set msg_numbers"
      by (intro exI conjI)
  qed
  have b: "\<forall>seen n. (\<forall>m \<in> set msg_numbers. \<not> seen m) \<and> seen n
             \<longrightarrow> n \<notin> snd ` set fol_messages
               \<and> (\<forall>fil_messages new_messages.
                     reconcile fol_messages fil_messages = Inr new_messages
                     \<longrightarrow> n \<notin> snd ` set new_messages)"
  proof (intro allI impI)
    fix seen :: "nat \<Rightarrow> bool" and n
    assume "(\<forall>m \<in> set msg_numbers. \<not> seen m) \<and> seen n"
    then have out: "n \<notin> set msg_numbers" by blast
    have "n \<notin> snd ` set fol_messages" using out v by (rule contra_subsetD [rotated])
    moreover have "\<forall>fil new. reconcile fol_messages fil = Inr new \<longrightarrow> n \<notin> snd ` set new"
    proof (intro allI impI)
      fix fil new
      assume "reconcile fol_messages fil = Inr new"
      from r [OF this] out show "n \<notin> snd ` set new" by (rule contra_subsetD)
    qed
    ultimately show "n \<notin> snd ` set fol_messages
               \<and> (\<forall>fil_messages new_messages.
                     reconcile fol_messages fil_messages = Inr new_messages
                     \<longrightarrow> n \<notin> snd ` set new_messages)"
      by (rule conjI)
  qed
  from v a b show ?thesis by (intro conjI)
qed

theorem remote_index_only_unseen_witness:
  "scan_folder (ascii_lib example_digest) (example_server [] [1, 3] mixed_parts) ''INBOX''
     = Inr [(''<a@x>'', 1), (''<c@x>'', 3)]
   \<and> search (example_server [] [1, 3] mixed_parts) (quoted ''INBOX'') = Reply ''OK'' [1, 3]
   \<and> reconcile [(''<a@x>'', 1), (''<c@x>'', 3)] [(''<a@x>'', ''<a@x>'')] = Inr [(''<c@x>'', 3)]
   \<and> 2 \<notin> snd ` set [(''<a@x>'', 1), (''<c@x>'', 3 :: nat)]
   \<and> 2 \<notin> snd ` set [(''<c@x>'', 3 :: nat)]"
proof -
  let ?srv = "example_server [] [1, 3] mixed_parts"
  have run: "scan_folder (ascii_lib example_digest) ?srv ''INBOX''
             = Inr [(''<a@x>'', 1), (''<c@x>'', 3)]"
    by (simp add: scan_eval mixed_parts_def)
  have s: "search ?srv (quoted ''INBOX'') = Reply ''OK'' [1, 3]"
    by (simp add: example_server_def)
  have rec: "reconcile [(''<a@x>'', 1), (''<c@x>'', 3)] [(''<a@x>'', ''<a@x>'')]
             = Inr [(''<c@x>'', 3)]"
    by (simp add: reconcile_def dict_keys_def dict_has_def dict_get_def)
  have seen: "(\<forall>m \<in> set [1, 3 :: nat]. \<not> (\<lambda>n. n = 2) m) \<and> (\<lambda>n. n = 2) (2 :: nat)"
    by simp
  note inst = remote_index_only_unseen [OF run s, THEN conjunct2, THEN conjunct2,
      rule_format, OF seen]
  note c1 = inst [THEN conjunct1]
    and c2 = inst [THEN conjunct2, rule_format, OF rec]
  from run s rec c1 c2 show ?thesis by (intro conjI)
qed

section \<open>The archive serializer, the local index and the name mapper on concrete inputs\<close>

lemmas str_eval =
  str_strip_def strip_with_def str_isspace_def msgid_match_def py_replace_def startswith_def
  lower_ascii_def dict_has_def

text \<open>
  C4. The claim is that every line of a serialized message that begins with \<open>From \<close>,
  after any number of \<open>>\<close>, gets one more \<open>>\<close> (a leading space in the Thunderbird
  mode), so that a line \<open>From spoofed\<close> is never archived unquoted. Both modes look for
  the line feed before the line, and the text is stripped first, so the first line of the
  text has none: message 1, whose first line is \<open>From spoofed\<close>, and message 2, which has
  no header lines and the one body line \<open>From spoofed\<close>, are archived with that line as
  it is, right after the envelope line. The line \<open>From inner\<close> further down is quoted.
\<close>

theorem first_line_from_is_archived_unquoted:
  "download_messages (example_server [] [] spoof_parts) (quoted ''INBOX'') clock False False
     [(''<a@x>'', 1)]
   = (''From nobody '' @ clock 0 @ [LF] @ ''From spoofed'' @ [LF] @ ''Subject: x'' @ [LF, LF]
      @ ''>From inner'' @ [LF, LF], Inr ())
   \<and> download_messages (example_server [] [] spoof_parts) (quoted ''INBOX'') clock True False
     [(''<a@x>'', 1)]
   = (''From nobody '' @ clock 0 @ [LF] @ ''From spoofed'' @ [LF] @ ''Subject: x'' @ [LF, LF]
      @ '' From inner'' @ [LF, LF], Inr ())
   \<and> download_messages (example_server [] [] spoof_parts) (quoted ''INBOX'') clock False False
     [(''<b@x>'', 2)]
   = (''From nobody '' @ clock 0 @ [LF] @ ''From spoofed'' @ [LF, LF], Inr ())"
  by (simp add: download_messages_def download_message_def example_server_def spoof_parts_def
      dict_keys_def dict_get_def contains_def UUID_def quote_from_def text_of_data_def
      bytes_strip_def strip_with_def bytes_isspace_def py_replace_def startswith_def)

text \<open>
  C6. The claim is that an archive entry whose Message-Id header is missing or malformed
  is tolerated with a warning and contributes no identifier to the local index. That
  holds for the third entry of the example archive, whose header is empty. For the second
  entry, which has no Message-Id header, \<open>message.get\<close> returns \<open>None\<close>, the header line
  becomes \<open>Message-Id: None\<close>, no warning is printed, and the local index gets the
  identifier \<open>None\<close>.
\<close>

theorem missing_message_id_is_indexed_as_None:
  "scan_file example_disk ''INBOX.mbox'' False
   = ([(''<a@x>'', ''<a@x>''), (''None'', ''None'')], [Malformed 2 ''INBOX.mbox''])"
  by (simp add: scan_file_def example_disk_def str_eval)

text \<open>
  C7. The claim is that in the Thunderbird mode only a leading \<open>INBOX\<close> of the mapped
  name becomes \<open>Inbox\<close> and every other occurrence stays. \<open>filename.replace("INBOX",
  "Inbox")\<close> has no count, so it replaces every occurrence once the name starts with
  \<open>INBOX\<close>: the folder \<open>INBOX/INBOX\<close> is mapped to \<open>Inbox.sbd/Inbox\<close>, not to
  \<open>Inbox.sbd/INBOX\<close>. (The reverse mapping in \<open>main\<close> passes the count 1.) A name that
  does not start with \<open>INBOX\<close> keeps its \<open>INBOX\<close>, and the flat mode is as claimed.
\<close>

theorem thunderbird_rewrites_every_INBOX:
  "get_names (ascii_lib h)
     (example_server [row_inbox_inbox, row_work_inbox, row_inbox] [] (\<lambda>n part. None)) True
   = Inr [(''INBOX/INBOX'', ''Inbox.sbd/Inbox''), (''Work/INBOX'', ''Work.sbd/INBOX''),
          (''INBOX'', ''Inbox'')]
   \<and> get_names (ascii_lib h)
     (example_server [row_inbox_inbox, row_work_inbox, row_inbox] [] (\<lambda>n part. None)) False
   = Inr [(''INBOX/INBOX'', ''INBOX.INBOX.mbox''), (''Work/INBOX'', ''Work.INBOX.mbox''),
          (''INBOX'', ''INBOX.mbox'')]"
  by (simp add: get_names_def example_server_def ascii_lib_def parse_list_def parse_paren_list_def
      parse_string_list_def tokens.simps name_attrib_match_def is_attr_char_def make_filename_def
      py_split_def row_inbox_inbox_def row_work_inbox_def row_inbox_def str_eval)

section \<open>The relay stage\<close>

lemma resend_message_fetchable:
  assumes "fetchable srv folder num"
  shows "snd (resend_message srv relay folder mailserver mailuser i num) = Inr ()
       \<and> filter flag_or_pause (fst (resend_message srv relay folder mailserver mailuser i num))
         = [Store num (if delivered srv relay folder mailserver mailuser i num
                       then ''+FLAGS'' else ''-FLAGS'') (BACKSLASH # ''Seen'')]"
  using assms
  by (auto simp: fetchable_def resend_message_def delivered_def flag_or_pause_def Let_def
      split: reply.splits option.splits)

lemma dict_get_member:
  "distinct (map fst d) \<Longrightarrow> (k, v) \<in> set d \<Longrightarrow> dict_get d k = Inr v"
  by (simp add: dict_get_def)

lemma resend_loop_schedule:
  assumes "distinct (map fst messages)"
    and "\<forall>n \<in> snd ` set messages. fetchable srv folder n"
    and "set todo \<subseteq> set messages"
  shows "snd (resend_loop srv relay folder mailserver mailuser messages (map fst todo) i)
           = Inr ()
       \<and> filter flag_or_pause
           (fst (resend_loop srv relay folder mailserver mailuser messages (map fst todo) i))
         = relay_schedule (delivered srv relay folder mailserver mailuser) i (map snd todo)"
  using assms(3)
proof (induction todo arbitrary: i)
  case Nil
  show ?case by simp
next
  case (Cons p todo)
  obtain k n where p: "p = (k, n)" by (cases p)
  from Cons.prems p have mem: "(k, n) \<in> set messages" and sub: "set todo \<subseteq> set messages"
    by auto
  from dict_get_member [OF assms(1) mem] have g: "dict_get messages k = Inr n" .
  from mem have "n \<in> snd ` set messages" by force
  with assms(2) have f: "fetchable srv folder n" by blast
  obtain evs where m: "resend_message srv relay folder mailserver mailuser i n = (evs, Inr ())"
    and ev: "filter flag_or_pause evs
             = [Store n (if delivered srv relay folder mailserver mailuser i n
                         then ''+FLAGS'' else ''-FLAGS'') (BACKSLASH # ''Seen'')]"
    using resend_message_fetchable [OF f, of relay mailserver mailuser i]
    by (cases "resend_message srv relay folder mailserver mailuser i n") auto
  obtain evs' r where l:
    "resend_loop srv relay folder mailserver mailuser messages (map fst todo) (i + 1) = (evs', r)"
    by (cases "resend_loop srv relay folder mailserver mailuser messages (map fst todo) (i + 1)")
  from Cons.IH [OF sub, of "i + 1"] l have r: "r = Inr ()"
    and ev': "filter flag_or_pause evs'
              = relay_schedule (delivered srv relay folder mailserver mailuser) (i + 1)
                  (map snd todo)"
    by simp_all
  have pause: "flag_or_pause (Sleep 60)" by (simp add: flag_or_pause_def)
  show ?case
    using p g m l r ev ev' pause by simp
qed

lemma relay_schedule_pauses:
  "length (filter (\<lambda>e. e = Sleep 60) (relay_schedule ok i nums))
   = (i + length nums) div 30 - i div 30"
proof (induction nums arbitrary: i)
  case Nil
  show ?case by simp
next
  case (Cons n nums)
  have step: "Suc i div 30 = i div 30 + (if Suc i mod 30 = 0 then 1 else 0)"
    by (simp add: div_Suc)
  have mono: "Suc i div 30 \<le> (Suc i + length nums) div 30"
    by (rule div_le_mono) simp
  from Cons [of "i + 1"] step mono show ?case by auto
qed

text \<open>
  C8. In every batch whose messages the source can be asked for, the relay stage runs to
  its end whatever the deliveries do. Its flag commands and pauses are those of the
  specification: one flag command per message, in the order of the batch, \<open>-FLAGS \Seen\<close>
  after a failed delivery and \<open>+FLAGS \Seen\<close> after a successful one, and a pause of 60
  seconds after every 30th message, failed deliveries counted like successful ones. So a
  batch has one pause for every full 30 messages.
\<close>

theorem relay_stage_continues_and_pauses:
  assumes "distinct (dict_keys messages)"
    and "\<forall>num \<in> snd ` set messages. fetchable srv folder num"
  shows "snd (resend_messages srv relay folder mailserver mailuser messages) = Inr ()
       \<and> filter flag_or_pause
           (fst (resend_messages srv relay folder mailserver mailuser messages))
         = relay_schedule (delivered srv relay folder mailserver mailuser) 0 (map snd messages)
       \<and> length (filter (\<lambda>e. e = Sleep 60)
           (fst (resend_messages srv relay folder mailserver mailuser messages)))
         = length messages div 30"
proof -
  let ?run = "resend_messages srv relay folder mailserver mailuser messages"
  let ?sched = "relay_schedule (delivered srv relay folder mailserver mailuser) 0
                  (map snd messages)"
  have main: "snd ?run = Inr () \<and> filter flag_or_pause (fst ?run) = ?sched"
  proof (cases "messages = []")
    case True
    then show ?thesis by (simp add: resend_messages_def)
  next
    case False
    then have "?run = resend_loop srv relay folder mailserver mailuser messages
                        (map fst messages) 0"
      by (simp add: resend_messages_def dict_keys_def)
    with resend_loop_schedule [OF assms(1) [unfolded dict_keys_def] assms(2) subset_refl, of
        relay mailserver mailuser 0]
    show ?thesis by simp
  qed
  have "filter (\<lambda>e. e = Sleep 60) (fst ?run)
        = filter (\<lambda>e. e = Sleep 60) (filter flag_or_pause (fst ?run))"
    by (auto simp: flag_or_pause_def intro: filter_cong)
  then have "length (filter (\<lambda>e. e = Sleep 60) (fst ?run)) = length messages div 30"
    using main relay_schedule_pauses [of "delivered srv relay folder mailserver mailuser" 0
        "map snd messages"]
    by simp
  with main show ?thesis by simp
qed

theorem relay_stage_continues_and_pauses_witness:
  "snd (resend_messages (example_server [] [] relay_parts) flaky_relay (quoted ''INBOX'')
          ''mx1.besserwisser.org'' ''haba@besserwisser.org'' batch35) = Inr ()
   \<and> filter flag_or_pause
         (fst (resend_messages (example_server [] [] relay_parts) flaky_relay (quoted ''INBOX'')
                 ''mx1.besserwisser.org'' ''haba@besserwisser.org'' batch35))
       = map (\<lambda>n. Store n ''+FLAGS'' (BACKSLASH # ''Seen'')) [1..<31]
         @ [Sleep 60, Store 31 ''-FLAGS'' (BACKSLASH # ''Seen'')]
         @ map (\<lambda>n. Store n ''+FLAGS'' (BACKSLASH # ''Seen'')) [32..<36]
   \<and> length (filter (\<lambda>e. e = Sleep 60)
         (fst (resend_messages (example_server [] [] relay_parts) flaky_relay (quoted ''INBOX'')
                 ''mx1.besserwisser.org'' ''haba@besserwisser.org'' batch35))) = 1"
proof -
  let ?srv = "example_server [] [] relay_parts"
  let ?f = "quoted ''INBOX''"
  have "inj_on (\<lambda>n. ''<'' @ replicate n (CHR ''m'') @ ''@x>'') (set [1..<36])"
    by (rule inj_onI) simp
  then have d: "distinct (dict_keys batch35)"
    by (simp add: batch35_def dict_keys_def comp_def distinct_map)
  have "fetchable ?srv ?f num" for num
    by (simp add: fetchable_def example_server_def relay_parts_def BODY_PART_def FROM_PART_def)
  then have f: "\<forall>num \<in> snd ` set batch35. fetchable ?srv ?f num" by simp
  have nums: "map snd batch35 = [1..<36]"
    by (simp add: batch35_def comp_def)
  have deliv: "delivered ?srv flaky_relay ?f ''mx1.besserwisser.org'' ''haba@besserwisser.org''
               = (\<lambda>i n. i \<noteq> 30)"
    by (simp add: fun_eq_iff delivered_def example_server_def relay_parts_def flaky_relay_def
        BODY_PART_def FROM_PART_def)
  have sched: "relay_schedule (\<lambda>i n. i \<noteq> 30) 0 [1..<36]
       = map (\<lambda>n. Store n ''+FLAGS'' (BACKSLASH # ''Seen'')) [1..<31]
         @ [Sleep 60, Store 31 ''-FLAGS'' (BACKSLASH # ''Seen'')]
         @ map (\<lambda>n. Store n ''+FLAGS'' (BACKSLASH # ''Seen'')) [32..<36]"
    by code_simp
  have len: "length batch35 div 30 = 1"
    by (simp add: batch35_def)
  from relay_stage_continues_and_pauses [OF d f, of flaky_relay
      "''mx1.besserwisser.org''" "''haba@besserwisser.org''"]
  show ?thesis
    unfolding nums deliv sched len .
qed

end
